theory Spec2Isabelle
  imports Complex_Main "HOL-Library.AList"
begin

section \<open>Python values used by the citation analyzer\<close>

text \<open>
  The analyzer works on Python strings, lists, dictionaries, sets and floats.
  Strings are modelled as \<open>string\<close> over ASCII code points; dictionaries, which keep
  their insertion order, as association lists updated with \<open>AList.update\<close>; floats as
  exact reals. The exceptions the analyzed code can raise are values of \<open>py_error\<close>.
\<close>

datatype py_error = IndexError | ValueError | RecursionError

definition whitespace :: "char list" where
  "whitespace = [CHR 0x09, CHR 0x0A, CHR 0x0B, CHR 0x0C, CHR 0x0D,
                 CHR 0x1C, CHR 0x1D, CHR 0x1E, CHR 0x1F, CHR 0x20]"

definition digits :: "char list" where
  "digits = ''0123456789''"

definition lowercase :: "char list" where
  "lowercase = ''abcdefghijklmnopqrstuvwxyz''"

definition uppercase :: "char list" where
  "uppercase = ''ABCDEFGHIJKLMNOPQRSTUVWXYZ''"

definition is_space :: "char \<Rightarrow> bool" where
  "is_space c = (c \<in> set whitespace)"

definition is_digit :: "char \<Rightarrow> bool" where
  "is_digit c = (c \<in> set digits)"

definition is_lower :: "char \<Rightarrow> bool" where
  "is_lower c = (c \<in> set lowercase)"

definition is_upper :: "char \<Rightarrow> bool" where
  "is_upper c = (c \<in> set uppercase)"

text \<open>\<^verbatim>\<open>str.lower()\<close>\<close>

definition lower_char :: "char \<Rightarrow> char" where
  "lower_char c = (case map_of (zip uppercase lowercase) c of Some l \<Rightarrow> l | None \<Rightarrow> c)"

definition lower :: "string \<Rightarrow> string" where
  "lower s = map lower_char s"

text \<open>\<^verbatim>\<open>str.strip()\<close>\<close>

definition strip :: "string \<Rightarrow> string" where
  "strip s = rev (dropWhile is_space (rev (dropWhile is_space s)))"

text \<open>\<^verbatim>\<open>str.split()\<close> with no argument: the maximal runs of non-whitespace.\<close>

fun split_ws_acc :: "string \<Rightarrow> string \<Rightarrow> string list" where
  "split_ws_acc cur [] = (if cur = [] then [] else [cur])"
| "split_ws_acc cur (c # cs) =
     (if is_space c then (if cur = [] then split_ws_acc [] cs else cur # split_ws_acc [] cs)
      else split_ws_acc (cur @ [c]) cs)"

definition split_ws :: "string \<Rightarrow> string list" where
  "split_ws s = split_ws_acc [] s"

text \<open>\<^verbatim>\<open>str.split(sep)\<close> for a one-character separator.\<close>

fun split_acc :: "char \<Rightarrow> string \<Rightarrow> string \<Rightarrow> string list" where
  "split_acc sep cur [] = [cur]"
| "split_acc sep cur (c # cs) =
     (if c = sep then cur # split_acc sep [] cs else split_acc sep (cur @ [c]) cs)"

definition split_on :: "char \<Rightarrow> string \<Rightarrow> string list" where
  "split_on sep s = split_acc sep [] s"

text \<open>\<^verbatim>\<open>sub in s\<close> on strings.\<close>

fun contains :: "string \<Rightarrow> string \<Rightarrow> bool" where
  "contains sub [] = (sub = [])"
| "contains sub (c # cs) = (take (length sub) (c # cs) = sub \<or> contains sub cs)"

text \<open>\<^verbatim>\<open>sep.join(xs)\<close>\<close>

fun join :: "string \<Rightarrow> string list \<Rightarrow> string" where
  "join sep [] = []"
| "join sep [x] = x"
| "join sep (x # y # zs) = x @ sep @ join sep (y # zs)"

text \<open>\<^verbatim>\<open>str.isdigit()\<close>\<close>

definition isdigit :: "string \<Rightarrow> bool" where
  "isdigit s = (s \<noteq> [] \<and> list_all is_digit s)"

definition digit_val :: "char \<Rightarrow> nat" where
  "digit_val c = length (takeWhile (\<lambda>d. d \<noteq> c) digits)"

definition nat_of_digits :: "string \<Rightarrow> nat" where
  "nat_of_digits s = foldl (\<lambda>n c. 10 * n + digit_val c) 0 s"

text \<open>
  \<^verbatim>\<open>int(s)\<close> as the extractor calls it: on a piece of a string whose characters other
  than \<open>-\<close> are all digits, so the piece is a digit string or empty, and the empty
  string raises ValueError.
\<close>

definition py_int :: "string \<Rightarrow> py_error + nat" where
  "py_int s = (if isdigit s then Inr (nat_of_digits s) else Inl ValueError)"

text \<open>\<^verbatim>\<open>str(i)\<close> for a non-negative integer.\<close>

fun str_nat :: "nat \<Rightarrow> string" where
  "str_nat n = (if n < 10 then [digits ! n] else str_nat (n div 10) @ [digits ! (n mod 10)])"

declare str_nat.simps [simp del]

text \<open>Running a fallible loop body over a list and concatenating what it appends.\<close>

fun collect :: "('a \<Rightarrow> py_error + 'b list) \<Rightarrow> 'a list \<Rightarrow> py_error + 'b list" where
  "collect f [] = Inr []"
| "collect f (x # xs) =
     (case f x of Inl e \<Rightarrow> Inl e
      | Inr ys \<Rightarrow> (case collect f xs of Inl e \<Rightarrow> Inl e | Inr zs \<Rightarrow> Inr (ys @ zs)))"

section \<open>Regular expressions of the extractor\<close>

text \<open>
  A matcher consumes a prefix of its input and returns it with the rest. The patterns
  of the extractor are sequences of literals and greedy character-class repetitions in
  which what follows a repetition never belongs to the repeated class, so matching
  greedily without giving characters back finds the same match as the backtracking
  engine of \<^verbatim>\<open>re\<close>.
\<close>

type_synonym matcher = "string \<Rightarrow> (string \<times> string) option"

definition lit :: "string \<Rightarrow> matcher" where
  "lit t s = (if take (length t) s = t then Some (t, drop (length t) s) else None)"

definition one :: "(char \<Rightarrow> bool) \<Rightarrow> matcher" where
  "one P s = (case s of [] \<Rightarrow> None | c # cs \<Rightarrow> if P c then Some ([c], cs) else None)"

definition many :: "(char \<Rightarrow> bool) \<Rightarrow> matcher" where
  "many P s = Some (takeWhile P s, dropWhile P s)"

definition many1 :: "(char \<Rightarrow> bool) \<Rightarrow> matcher" where
  "many1 P s = (if takeWhile P s = [] then None else Some (takeWhile P s, dropWhile P s))"

definition exactly :: "nat \<Rightarrow> (char \<Rightarrow> bool) \<Rightarrow> matcher" where
  "exactly n P s =
     (if n \<le> length s \<and> list_all P (take n s) then Some (take n s, drop n s) else None)"

definition seq :: "matcher \<Rightarrow> matcher \<Rightarrow> matcher" where
  "seq a b s =
     (case a s of None \<Rightarrow> None
      | Some (x, r) \<Rightarrow> (case b r of None \<Rightarrow> None | Some (y, r') \<Rightarrow> Some (x @ y, r')))"

fun seqs :: "matcher list \<Rightarrow> matcher" where
  "seqs [] = (\<lambda>s. Some ([], s))"
| "seqs (m # ms) = seq m (seqs ms)"

text \<open>\<^verbatim>\<open>(?: ... )*\<close>: repeat the body as long as it matches.\<close>

function star :: "matcher \<Rightarrow> matcher" where
  "star m s =
     (case m s of None \<Rightarrow> Some ([], s)
      | Some (x, r) \<Rightarrow>
          if length r < length s
          then (case star m r of None \<Rightarrow> None | Some (y, r') \<Rightarrow> Some (x @ y, r'))
          else Some ([], s))"
  by pat_completeness auto
termination
  by (relation "measure (\<lambda>(m, s). length s)") auto

declare star.simps [simp del]

text \<open>
  A compiled pattern of the shape \<open>pre(group)post\<close>: at the start of its input it
  returns the text of group 1 and the length of the whole match.
\<close>

type_synonym rx = "string \<Rightarrow> (string \<times> nat) option"

definition regex :: "matcher \<Rightarrow> matcher \<Rightarrow> matcher \<Rightarrow> rx" where
  "regex pre grp post s =
     (case pre s of None \<Rightarrow> None
      | Some (a, r1) \<Rightarrow>
          (case grp r1 of None \<Rightarrow> None
           | Some (g, r2) \<Rightarrow>
               (case post r2 of None \<Rightarrow> None
                | Some (b, r3) \<Rightarrow> Some (g, length a + length g + length b))))"

text \<open>
  \<^verbatim>\<open>pattern.finditer(s)\<close>: the non-overlapping matches from left to right, each with
  its start, group 1 and end. None of the patterns below matches the empty string, so
  the branch for an empty match is never taken.
\<close>

function finditer :: "rx \<Rightarrow> nat \<Rightarrow> string \<Rightarrow> (nat \<times> string \<times> nat) list" where
  "finditer m pos s =
     (if s = [] then []
      else case m s of
             None \<Rightarrow> finditer m (pos + 1) (tl s)
           | Some (g, n) \<Rightarrow>
               (pos, g, pos + n) #
               (if n = 0 then finditer m (pos + 1) (tl s)
                else finditer m (pos + n) (drop n s)))"
  by pat_completeness auto
termination
  by (relation "measure (\<lambda>(m, pos, s). length s)") auto

declare finditer.simps [simp del]

text \<open>\<^verbatim>\<open>re.split\<close>: the pieces of the text between the matches.\<close>

fun pieces :: "nat \<Rightarrow> (nat \<times> string \<times> nat) list \<Rightarrow> string \<Rightarrow> string list" where
  "pieces prev [] s = [drop prev s]"
| "pieces prev ((st, g, en) # ms) s = take (st - prev) (drop prev s) # pieces en ms s"

definition re_split :: "rx \<Rightarrow> string \<Rightarrow> string list" where
  "re_split m s = pieces 0 (finditer m 0 s) s"

section \<open>Citation extractor\<close>

record extracted_citation =
  reference_id :: string
  position :: nat
  context_text :: string
  sentence :: string
  citation_type :: string

text \<open>\<^verbatim>\<open>CITATION_PATTERNS\<close>, in the order of the source.\<close>

definition numeric_list_pattern :: rx where
  "numeric_list_pattern =
     regex (lit ''['')
       (seq (many1 is_digit) (star (seqs [lit '','', many is_space, many1 is_digit])))
       (lit '']'')"

definition numeric_range_pattern :: rx where
  "numeric_range_pattern =
     regex (lit ''['') (seqs [many1 is_digit, lit ''-'', many1 is_digit]) (lit '']'')"

definition et_al_pattern :: rx where
  "et_al_pattern =
     regex (lit ''('')
       (seqs [one is_upper, many1 is_lower, many1 is_space, lit ''et'', many1 is_space,
              lit ''al.,'', many is_space, exactly 4 is_digit])
       (lit '')'')"

definition and_pattern :: rx where
  "and_pattern =
     regex (lit ''('')
       (seqs [one is_upper, many1 is_lower, many1 is_space, lit ''and'', many1 is_space,
              one is_upper, many1 is_lower, lit '','', many is_space, exactly 4 is_digit])
       (lit '')'')"

definition CITATION_PATTERNS :: "rx list" where
  "CITATION_PATTERNS =
     [numeric_list_pattern, numeric_range_pattern, et_al_pattern, and_pattern]"

definition SUPPORT_INDICATORS :: "string list" where
  "SUPPORT_INDICATORS = [''shown'', ''demonstrated'', ''proven'', ''validated'', ''confirmed'']"

definition CONTRAST_INDICATORS :: "string list" where
  "CONTRAST_INDICATORS = [''however'', ''contrary'', ''unlike'', ''different'', ''contrast'']"

definition METHODOLOGY_INDICATORS :: "string list" where
  "METHODOLOGY_INDICATORS = [''method'', ''approach'', ''technique'', ''algorithm'', ''using'']"

definition sentence_end :: rx where
  "sentence_end =
     regex (seqs []) (seq (many1 (\<lambda>c. c \<in> set ''.!?'')) (many1 is_space)) (seqs [])"

definition split_sentences :: "string \<Rightarrow> string list" where
  "split_sentences text = filter (\<lambda>s. s \<noteq> []) (map strip (re_split sentence_end text))"

definition parse_reference_ids :: "string \<Rightarrow> py_error + string list" where
  "parse_reference_ids ref_string =
     (if CHR ''-'' \<in> set ref_string \<and> isdigit (filter (\<lambda>c. c \<noteq> CHR ''-'') ref_string)
      then (case split_on CHR ''-'' ref_string of
              [p0, p1] \<Rightarrow>
                (case py_int p0 of Inl e \<Rightarrow> Inl e
                 | Inr start \<Rightarrow>
                     (case py_int p1 of Inl e \<Rightarrow> Inl e
                      | Inr stop \<Rightarrow> Inr (map str_nat [start ..< stop + 1])))
            | _ \<Rightarrow> Inr [])
      else if CHR '','' \<in> set ref_string
      then Inr (filter (\<lambda>i. i \<noteq> []) (map strip (split_on CHR '','' ref_string)))
      else Inr [strip ref_string])"

definition extract_context :: "string list \<Rightarrow> nat \<Rightarrow> nat \<Rightarrow> string" where
  "extract_context sentences pos window =
     (let start = pos - window;
          stop = min (length sentences) (pos + window + 1)
      in join '' '' (take (stop - start) (drop start sentences)))"

definition classify_citation :: "string \<Rightarrow> string" where
  "classify_citation sent =
     (let sentence_lower = lower sent
      in if list_ex (\<lambda>ind. contains ind sentence_lower) SUPPORT_INDICATORS then ''support''
         else if list_ex (\<lambda>ind. contains ind sentence_lower) CONTRAST_INDICATORS
         then ''contrast''
         else if list_ex (\<lambda>ind. contains ind sentence_lower) METHODOLOGY_INDICATORS
         then ''methodology''
         else ''support'')"

text \<open>The body of the loop over the matches of one pattern in sentence \<open>i\<close>.\<close>

definition citations_of_match ::
  "string list \<Rightarrow> nat \<Rightarrow> string \<Rightarrow> nat \<times> string \<times> nat \<Rightarrow> py_error + extracted_citation list"
where
  "citations_of_match sentences i sent m =
     (case m of (start, group1, stop) \<Rightarrow>
        (case parse_reference_ids group1 of Inl e \<Rightarrow> Inl e
         | Inr ref_ids \<Rightarrow>
             Inr (map (\<lambda>ref_id.
                    \<lparr>reference_id = ref_id, position = start,
                     context_text = extract_context sentences i 2, sentence = sent,
                     citation_type = classify_citation sent\<rparr>) ref_ids)))"

definition citations_in_sentence ::
  "rx \<Rightarrow> string list \<Rightarrow> nat \<times> string \<Rightarrow> py_error + extracted_citation list"
where
  "citations_in_sentence pattern sentences isent =
     (case isent of (i, sent) \<Rightarrow>
        collect (citations_of_match sentences i sent) (finditer pattern 0 sent))"

text \<open>The reference list is not consulted by the extractor; the parameter is kept.\<close>

definition extract_citations :: "string \<Rightarrow> 'r list \<Rightarrow> py_error + extracted_citation list" where
  "extract_citations text references =
     (let sentences = split_sentences text
      in collect (\<lambda>pattern.
           collect (citations_in_sentence pattern sentences) (enumerate 0 sentences))
           CITATION_PATTERNS)"

section \<open>Citation graph\<close>

text \<open>
  A reference is a dictionary with the keys \<^verbatim>\<open>authors\<close>, \<^verbatim>\<open>title\<close>, \<^verbatim>\<open>year\<close> and
  \<^verbatim>\<open>venue\<close>. A missing \<^verbatim>\<open>authors\<close> key reads as the empty list; the other three keys
  are optional, \<open>None\<close> standing for a key that is not there.
\<close>

record reference =
  authors :: "string list"
  title :: "string option"
  year :: "int option"
  venue :: "string option"

record node_attrs =
  attr_title :: string
  attr_year :: "int option"
  attr_authors :: "string list"
  attr_venue :: string

record citation_graph =
  nodes :: "string set"
  edges :: "(string \<times> string) list"
  node_attributes :: "(string \<times> node_attrs) list"
  edge_attributes :: "((string \<times> string) \<times> string) list"

definition add_node :: "citation_graph \<Rightarrow> string \<Rightarrow> node_attrs \<Rightarrow> citation_graph" where
  "add_node g node_id attributes =
     g\<lparr>nodes := insert node_id (nodes g),
       node_attributes := AList.update node_id attributes (node_attributes g)\<rparr>"

definition add_edge :: "citation_graph \<Rightarrow> string \<Rightarrow> string \<Rightarrow> string \<Rightarrow> citation_graph" where
  "add_edge g from_node to_node edge_type =
     g\<lparr>edges := edges g @ [(from_node, to_node)],
       edge_attributes := AList.update (from_node, to_node) edge_type (edge_attributes g)\<rparr>"

definition get_neighbors :: "citation_graph \<Rightarrow> string \<Rightarrow> string list" where
  "get_neighbors g node_id =
     concat (map (\<lambda>(from_node, to_node).
                    if from_node = node_id then [to_node]
                    else if to_node = node_id then [from_node] else [])
                 (edges g))"

text \<open>
  \<^verbatim>\<open>for i, x in enumerate(xs): for y in xs[i+1:]\<close>: every element with each later one.
\<close>

fun pairs :: "'a list \<Rightarrow> ('a \<times> 'a) list" where
  "pairs [] = []"
| "pairs (x # xs) = map (Pair x) xs @ pairs xs"

text \<open>\<^verbatim>\<open>d.get(k, [])\<close> followed by an append to the list stored under \<open>k\<close>.\<close>

definition append_under :: "'k \<Rightarrow> 'v \<Rightarrow> ('k \<times> 'v list) list \<Rightarrow> ('k \<times> 'v list) list" where
  "append_under k v d =
     AList.update k ((case map_of d k of None \<Rightarrow> [] | Some vs \<Rightarrow> vs) @ [v]) d"

definition co_citation_edge :: "string \<times> string \<Rightarrow> citation_graph \<Rightarrow> citation_graph" where
  "co_citation_edge p g =
     (case p of (ref1, ref2) \<Rightarrow>
        if ref1 \<in> nodes g \<and> ref2 \<in> nodes g then add_edge g ref1 ref2 ''co-citation'' else g)"

definition add_co_citation_edges ::
  "citation_graph \<Rightarrow> extracted_citation list \<Rightarrow> citation_graph"
where
  "add_co_citation_edges g citations =
     (let context_citations =
            fold (\<lambda>citation. append_under (take 100 (context_text citation))
                                           (reference_id citation))
                 citations []
      in fold (\<lambda>(ctx, ref_ids) g.
                 if length ref_ids > 1 then fold co_citation_edge (pairs ref_ids) g else g)
              context_citations g)"

definition coupling_edge :: "string \<times> string \<Rightarrow> citation_graph \<Rightarrow> citation_graph" where
  "coupling_edge p g =
     (case p of (ref1, ref2) \<Rightarrow>
        if ref1 \<in> nodes g \<and> ref2 \<in> nodes g
        then (if (ref1, ref2) \<notin> set (edges g) \<and> (ref2, ref1) \<notin> set (edges g)
              then add_edge g ref1 ref2 ''coupling'' else g)
        else g)"

definition add_bibliographic_coupling_edges ::
  "citation_graph \<Rightarrow> reference list \<Rightarrow> citation_graph"
where
  "add_bibliographic_coupling_edges g references =
     (let venue_refs =
            fold (\<lambda>(i, ref) d.
                    let v = lower (case venue ref of None \<Rightarrow> [] | Some x \<Rightarrow> x)
                    in if v \<noteq> [] then append_under v (str_nat (i + 1)) d else d)
                 (enumerate 0 references) []
      in fold (\<lambda>(v, ref_ids) g.
                 if length ref_ids > 1 then fold coupling_edge (pairs ref_ids) g else g)
              venue_refs g)"

definition build_graph :: "extracted_citation list \<Rightarrow> reference list \<Rightarrow> citation_graph" where
  "build_graph citations references =
     (let graph = \<lparr>nodes = {}, edges = [], node_attributes = [], edge_attributes = []\<rparr>;
          ref_map = fold (\<lambda>(i, ref). AList.update (str_nat (i + 1)) ref)
                         (enumerate 0 references) [];
          graph = fold (\<lambda>(ref_id, ref) g.
                          add_node g ref_id
                            \<lparr>attr_title = (case title ref of None \<Rightarrow> [] | Some t \<Rightarrow> t),
                             attr_year = year ref,
                             attr_authors = authors ref,
                             attr_venue = (case venue ref of None \<Rightarrow> [] | Some v \<Rightarrow> v)\<rparr>)
                       ref_map graph;
          graph = add_co_citation_edges graph citations
      in add_bibliographic_coupling_edges graph references)"

section \<open>What the analysis reads from the interpreter\<close>

text \<open>
  Iterating over a Python set visits its elements in an order fixed by the interpreter
  run, \<^verbatim>\<open>datetime.now()\<close> reads the clock, and the interpreter bounds the depth of
  the call stack. All three are parameters of the model: \<open>set_order\<close> lists the elements
  of a set in the order of iteration, \<open>current_year\<close> is \<^verbatim>\<open>datetime.now().year\<close>,
  \<open>clock\<close> the time stored in the result, and \<open>recursion_limit\<close> the number of nested
  calls of \<^verbatim>\<open>_find_ring_size\<close> that fit on the stack when the pattern detector starts
  the search (somewhat below \<^verbatim>\<open>sys.getrecursionlimit()\<close>, which is 1000 by default).
\<close>

record env =
  set_order :: "string set \<Rightarrow> string list"
  current_year :: int
  clock :: nat
  recursion_limit :: nat

text \<open>
  Formatted strings are kept as their pieces: literal text, integers, and floats with
  their format specification.
\<close>

datatype piece = Txt string | Num int | Flt string real

section \<open>Pattern detector\<close>

record citation_pattern =
  pattern_type :: string
  description :: "piece list"
  suspicion_score :: real
  evidence :: "piece list list"
  affected_references :: "string list"

definition CLUSTER_DENSITY_THRESHOLD :: real where
  "CLUSTER_DENSITY_THRESHOLD = 0.7"

definition RECIPROCAL_CITATION_THRESHOLD :: nat where
  "RECIPROCAL_CITATION_THRESHOLD = 3"

text \<open>
  One round of the loop over the nodes in \<^verbatim>\<open>_detect_clustering\<close>; the state is
  \<open>(total_clustering, nodes_with_neighbors)\<close>.
\<close>

definition clustering_step :: "citation_graph \<Rightarrow> string \<Rightarrow> real \<times> nat \<Rightarrow> real \<times> nat" where
  "clustering_step g node st =
     (case st of (total_clustering, nodes_with_neighbors) \<Rightarrow>
        let neighbors = get_neighbors g node
        in if length neighbors < 2 then st
           else
             let neighbor_edges =
                   length (filter (\<lambda>(n1, n2). (n1, n2) \<in> set (edges g) \<or> (n2, n1) \<in> set (edges g))
                                  (pairs neighbors));
                 max_possible_edges = real (length neighbors * (length neighbors - 1)) / 2
             in (if max_possible_edges > 0
                 then total_clustering + real neighbor_edges / max_possible_edges
                 else total_clustering,
                 nodes_with_neighbors + 1))"

definition detect_clustering :: "env \<Rightarrow> citation_graph \<Rightarrow> citation_pattern option" where
  "detect_clustering e g =
     (if card (nodes g) < 3 then None
      else
        (case fold (clustering_step g) (set_order e (nodes g)) (0, 0) of
           (total_clustering, nodes_with_neighbors) \<Rightarrow>
             if nodes_with_neighbors = 0 then None
             else
               let avg_clustering = total_clustering / real nodes_with_neighbors
               in if avg_clustering > CLUSTER_DENSITY_THRESHOLD
                  then Some
                    \<lparr>pattern_type = ''excessive_clustering'',
                     description =
                       [Txt ''Citations show excessive clustering, possibly indicating citation ring''],
                     suspicion_score = min avg_clustering 1,
                     evidence =
                       [[Txt ''Average clustering coefficient: '', Flt ''.2f'' avg_clustering],
                        [Txt ''Threshold exceeded: '', Flt [] CLUSTER_DENSITY_THRESHOLD]],
                     affected_references = set_order e (nodes g)\<rparr>
                  else None))"

text \<open>
  \<^verbatim>\<open>_find_ring_size\<close>: \<open>visited\<close> is \<open>None\<close> in the call of the detector and a copy of
  the caller's set in the recursive calls. \<open>ring_loop\<close> is the loop over the
  neighbours, with \<open>max_ring\<close> as its state. The function calls itself for every
  unvisited neighbour listed before the start node, also when the result is discarded
  later, so \<open>depth\<close> counts the calls that still fit on the stack: a call made at depth
  \<open>0\<close> raises \<^verbatim>\<open>RecursionError\<close>, and the exception ends the loops of all callers.
  Every call either adds a node to \<open>visited\<close> or shortens the list of neighbours left
  (\<open>ring_m1\<close>, \<open>ring_m2\<close>).
\<close>

definition endpoints :: "citation_graph \<Rightarrow> string set" where
  "endpoints g = fst ` set (edges g) \<union> snd ` set (edges g)"

definition ring_m1 ::
  "citation_graph \<times> string \<times> string \<times> string set option \<times> nat
   + citation_graph \<times> string \<times> string set \<times> nat \<times> string list \<times> nat \<Rightarrow> nat"
where
  "ring_m1 =
     case_sum
       (\<lambda>(g, s, c, v, d). card (insert c (endpoints g) - (case v of None \<Rightarrow> {s} | Some w \<Rightarrow> w)))
       (\<lambda>(g, s, v, m, ns, d). card ((endpoints g \<union> set ns) - v))"

definition ring_m2 ::
  "citation_graph \<times> string \<times> string \<times> string set option \<times> nat
   + citation_graph \<times> string \<times> string set \<times> nat \<times> string list \<times> nat \<Rightarrow> nat"
where
  "ring_m2 = case_sum (\<lambda>(g, s, c, v, d). 0) (\<lambda>(g, s, v, m, ns, d). Suc (length ns))"

function find_ring_size ::
    "citation_graph \<Rightarrow> string \<Rightarrow> string \<Rightarrow> string set option \<Rightarrow> nat \<Rightarrow> py_error + nat"
  and ring_loop ::
    "citation_graph \<Rightarrow> string \<Rightarrow> string set \<Rightarrow> nat \<Rightarrow> string list \<Rightarrow> nat \<Rightarrow> py_error + nat"
where
  "find_ring_size g start_node current_node visited_arg depth =
     (if depth = 0 then Inl RecursionError
      else
        let visited = (case visited_arg of None \<Rightarrow> {start_node} | Some v \<Rightarrow> v)
        in if current_node \<in> visited then Inr (card visited)
           else ring_loop g start_node (insert current_node visited)
                  (card (insert current_node visited)) (get_neighbors g current_node) depth)"
| "ring_loop g start_node visited max_ring [] depth = Inr max_ring"
| "ring_loop g start_node visited max_ring (neighbor # rest) depth =
     (if neighbor = start_node then Inr (card visited + 1)
      else if neighbor \<notin> visited
      then (case find_ring_size g start_node neighbor (Some visited) (depth - 1) of
              Inl err \<Rightarrow> Inl err
            | Inr ring_size \<Rightarrow>
                ring_loop g start_node visited (max max_ring ring_size) rest depth)
      else ring_loop g start_node visited max_ring rest depth)"
  by pat_completeness auto
termination
proof (relation "measures [ring_m1, ring_m2]", goal_cases)
  case 1
  then show ?case by simp
next
  case (2 g s c v d vis)
  have "set (get_neighbors g c) \<subseteq> endpoints g"
    unfolding get_neighbors_def endpoints_def
    by (auto split: if_splits simp: image_iff) force+
  then have eq: "endpoints g \<union> set (get_neighbors g c) = endpoints g"
    by blast
  have "card (endpoints g - insert c vis) < card (insert c (endpoints g) - vis)"
  proof (rule psubset_card_mono)
    show "finite (insert c (endpoints g) - vis)"
      by (simp add: endpoints_def)
    show "endpoints g - insert c vis \<subset> insert c (endpoints g) - vis"
      using 2 by auto
  qed
  then show ?case
    using 2 by (auto simp: ring_m1_def ring_m2_def eq)
next
  case (3 g s vis m n rest d)
  have "card (insert n (endpoints g) - vis) \<le> card (endpoints g \<union> set (n # rest) - vis)"
    by (rule card_mono) (auto simp: endpoints_def)
  then show ?case
    by (auto simp: ring_m1_def ring_m2_def)
next
  case (4 g s vis m n rest d r)
  have "card (endpoints g \<union> set rest - vis) \<le> card (endpoints g \<union> set (n # rest) - vis)"
    by (rule card_mono) (auto simp: endpoints_def)
  then show ?case
    by (auto simp: ring_m1_def ring_m2_def)
next
  case (5 g s vis m n rest d)
  have "card (endpoints g \<union> set rest - vis) \<le> card (endpoints g \<union> set (n # rest) - vis)"
    by (rule card_mono) (auto simp: endpoints_def)
  then show ?case
    by (auto simp: ring_m1_def ring_m2_def)
qed

declare find_ring_size.simps [simp del]

definition cartel_pattern :: "string \<Rightarrow> string \<Rightarrow> nat \<Rightarrow> citation_pattern" where
  "cartel_pattern node neighbor ring_size =
     \<lparr>pattern_type = ''citation_cartel'',
      description = [Txt ''Detected potential citation cartel of size '', Num (int ring_size)],
      suspicion_score = min (real ring_size / 10) 1,
      evidence =
        [[Txt ''Ring size: '', Num (int ring_size)],
         [Txt ''Reciprocal citations detected between '', Txt node, Txt '' and '', Txt neighbor]],
      affected_references = [node, neighbor]\<rparr>"

text \<open>
  The body of the loop over the neighbours of \<open>node\<close> in
  \<^verbatim>\<open>_detect_citation_cartels\<close>; the search starts with the whole \<open>recursion_limit\<close>.
\<close>

definition cartels_of_neighbor ::
  "env \<Rightarrow> citation_graph \<Rightarrow> string \<Rightarrow> string \<Rightarrow> py_error + citation_pattern list"
where
  "cartels_of_neighbor e g node neighbor =
     (if node \<in> set (get_neighbors g neighbor)
      then (case find_ring_size g node neighbor None (recursion_limit e) of
              Inl err \<Rightarrow> Inl err
            | Inr ring_size \<Rightarrow>
                Inr (if ring_size \<ge> RECIPROCAL_CITATION_THRESHOLD
                     then [cartel_pattern node neighbor ring_size] else []))
      else Inr [])"

definition detect_citation_cartels ::
  "env \<Rightarrow> citation_graph \<Rightarrow> py_error + citation_pattern list"
where
  "detect_citation_cartels e g =
     collect (\<lambda>node. collect (cartels_of_neighbor e g node) (get_neighbors g node))
             (set_order e (nodes g))"

text \<open>\<^verbatim>\<open>citation_counts[ref_id] = citation_counts.get(ref_id, 0) + 1\<close>\<close>

definition count_up :: "'k \<Rightarrow> ('k \<times> nat) list \<Rightarrow> ('k \<times> nat) list" where
  "count_up k d = AList.update k ((case map_of d k of None \<Rightarrow> 0 | Some n \<Rightarrow> n) + 1) d"

definition detect_concentration ::
  "citation_graph \<Rightarrow> extracted_citation list \<Rightarrow> citation_pattern option"
where
  "detect_concentration g citations =
     (if citations = [] then None
      else
        let citation_counts = fold (\<lambda>citation. count_up (reference_id citation)) citations []
        in (case map snd citation_counts of
              [] \<Rightarrow> None
            | v # vs \<Rightarrow>
                let max_citations = fold max vs v;
                    total_citations = sum_list (v # vs);
                    concentration_ratio = real max_citations / real total_citations
                in if concentration_ratio > 0.3
                   then Some
                     \<lparr>pattern_type = ''citation_concentration'',
                      description =
                        [Txt ''Abnormal concentration of citations on few references''],
                      suspicion_score = min (concentration_ratio * 1.5) 1,
                      evidence =
                        [[Txt ''Top reference(s) have '', Flt ''.1%'' concentration_ratio,
                          Txt '' of all citations''],
                         [Txt ''Max citations to single ref: '', Num (int max_citations),
                          Txt ''/'', Num (int total_citations)]],
                      affected_references =
                        map fst (filter (\<lambda>(ref_id, count). count = max_citations)
                                        citation_counts)\<rparr>
                   else None))"

text \<open>\<^verbatim>\<open>if year:\<close> holds for a year that is there and not zero.\<close>

definition truthy_year :: "int option \<Rightarrow> int list" where
  "truthy_year y = (case y of None \<Rightarrow> [] | Some v \<Rightarrow> if v = 0 then [] else [v])"

definition detect_temporal_anomalies :: "env \<Rightarrow> citation_graph \<Rightarrow> citation_pattern option" where
  "detect_temporal_anomalies e g =
     (let years =
            concat (map (\<lambda>node. case map_of (node_attributes g) node of
                                   None \<Rightarrow> []
                                 | Some attrs \<Rightarrow> truthy_year (attr_year attrs))
                        (set_order e (nodes g)))
      in if length years < 5 then None
         else
           (case years of
              [] \<Rightarrow> None
            | y # ys \<Rightarrow>
                let recent_citations = length (filter (\<lambda>y. y \<ge> current_year e - 3) years)
                in if recent_citations = 0
                   then Some
                     \<lparr>pattern_type = ''temporal_anomaly'',
                      description = [Txt ''No citations to recent work (last 3 years)''],
                      suspicion_score = 0.6,
                      evidence =
                        [[Txt ''Most recent citation year: '', Num (fold max ys y)],
                         [Txt ''Consider including more recent references'']],
                      affected_references = []\<rparr>
                   else None))"

definition detect_patterns ::
  "env \<Rightarrow> citation_graph \<Rightarrow> extracted_citation list \<Rightarrow> py_error + citation_pattern list"
where
  "detect_patterns e g citations =
     (case detect_citation_cartels e g of Inl err \<Rightarrow> Inl err
      | Inr cartel_patterns \<Rightarrow>
          Inr ((case detect_clustering e g of None \<Rightarrow> [] | Some p \<Rightarrow> [p])
               @ cartel_patterns
               @ (case detect_concentration g citations of None \<Rightarrow> [] | Some p \<Rightarrow> [p])
               @ (case detect_temporal_anomalies e g of None \<Rightarrow> [] | Some p \<Rightarrow> [p])))"

section \<open>Citation graph analyzer\<close>

text \<open>\<^verbatim>\<open>name.lower().split()[-1]\<close>: IndexError when the name has no token.\<close>

definition last_name :: "string \<Rightarrow> py_error + string" where
  "last_name name =
     (case split_ws (lower name) of [] \<Rightarrow> Inl IndexError | t # ts \<Rightarrow> Inr (last (t # ts)))"

text \<open>The set comprehension over the manuscript's author names.\<close>

fun normalize_authors :: "string list \<Rightarrow> py_error + string set" where
  "normalize_authors [] = Inr {}"
| "normalize_authors (name # names) =
     (case last_name name of Inl e \<Rightarrow> Inl e
      | Inr l \<Rightarrow> (case normalize_authors names of Inl e \<Rightarrow> Inl e
                  | Inr ls \<Rightarrow> Inr (insert l ls)))"

text \<open>The inner loop over one reference's authors, left at the first match.\<close>

fun self_cited :: "string set \<Rightarrow> string list \<Rightarrow> py_error + bool" where
  "self_cited normalized_authors [] = Inr False"
| "self_cited normalized_authors (ref_author # rest) =
     (case last_name ref_author of Inl e \<Rightarrow> Inl e
      | Inr ref_lastname \<Rightarrow>
          if ref_lastname \<in> normalized_authors then Inr True
          else self_cited normalized_authors rest)"

fun count_self :: "string set \<Rightarrow> reference list \<Rightarrow> nat \<Rightarrow> py_error + nat" where
  "count_self normalized_authors [] self_count = Inr self_count"
| "count_self normalized_authors (ref # refs) self_count =
     (case self_cited normalized_authors (authors ref) of Inl e \<Rightarrow> Inl e
      | Inr b \<Rightarrow> count_self normalized_authors refs (if b then self_count + 1 else self_count))"

definition count_self_citations ::
  "extracted_citation list \<Rightarrow> reference list \<Rightarrow> string list \<Rightarrow> py_error + nat"
where
  "count_self_citations citations references author_names =
     (if author_names = [] then Inr 0
      else (case normalize_authors author_names of Inl e \<Rightarrow> Inl e
            | Inr normalized_authors \<Rightarrow> count_self normalized_authors references 0))"

text \<open>
  \<^verbatim>\<open>_explore_cluster\<close>: the stack is a Python list, popped at its end; \<open>visited\<close> is
  the caller's set, which the loop updates, so it is returned with the cluster.
\<close>

definition explore_m1 :: "citation_graph \<times> string list \<times> string set \<times> string set \<Rightarrow> nat" where
  "explore_m1 = (\<lambda>(g, stack, visited, cluster). card ((endpoints g \<union> set stack) - visited))"

definition explore_m2 :: "citation_graph \<times> string list \<times> string set \<times> string set \<Rightarrow> nat" where
  "explore_m2 = (\<lambda>(g, stack, visited, cluster). length stack)"

function explore_loop ::
  "citation_graph \<Rightarrow> string list \<Rightarrow> string set \<Rightarrow> string set \<Rightarrow> string set \<times> string set"
where
  "explore_loop g stack visited cluster =
     (if stack = [] then (cluster, visited)
      else
        let node = last stack;
            stack = butlast stack
        in if node \<notin> visited
           then (let visited = insert node visited;
                     cluster = insert node cluster;
                     neighbors = get_neighbors g node
                 in explore_loop g (stack @ filter (\<lambda>n. n \<notin> visited) neighbors) visited cluster)
           else explore_loop g stack visited cluster)"
  by pat_completeness auto
termination
proof (relation "measures [explore_m1, explore_m2]", goal_cases)
  case 1
  then show ?case by simp
next
  case (2 g stack visited cluster node stack' visited' cluster' neighbors)
  have nb: "set (get_neighbors g node) \<subseteq> endpoints g"
    unfolding get_neighbors_def endpoints_def
    by (auto split: if_splits simp: image_iff) force+
  have mem: "node \<in> set stack"
    using 2 by simp
  have sub: "set stack' \<subseteq> set stack"
    using 2 by (auto dest: in_set_butlastD)
  have "card ((endpoints g \<union> set (stack' @ filter (\<lambda>n. n \<notin> visited') neighbors)) - visited')
        < card ((endpoints g \<union> set stack) - visited)"
  proof (rule psubset_card_mono)
    show "finite ((endpoints g \<union> set stack) - visited)"
      by (simp add: endpoints_def)
    show "(endpoints g \<union> set (stack' @ filter (\<lambda>n. n \<notin> visited') neighbors)) - visited'
          \<subset> (endpoints g \<union> set stack) - visited"
      using 2 nb mem sub by auto
  qed
  then show ?case
    by (simp add: explore_m1_def explore_m2_def)
next
  case (3 g stack visited cluster node stack')
  have sub: "set stack' \<subseteq> set stack"
    using 3 by (auto dest: in_set_butlastD)
  have "card ((endpoints g \<union> set stack') - visited) \<le> card ((endpoints g \<union> set stack) - visited)"
    by (rule card_mono) (use sub in \<open>auto simp: endpoints_def\<close>)
  moreover have "length stack' < length stack"
    using 3 by simp
  ultimately show ?case
    by (auto simp: explore_m1_def explore_m2_def)
qed

declare explore_loop.simps [simp del]

definition explore_cluster ::
  "citation_graph \<Rightarrow> string \<Rightarrow> string set \<Rightarrow> string set \<times> string set"
where
  "explore_cluster g start_node visited = explore_loop g [start_node] visited {}"

text \<open>The loop of \<^verbatim>\<open>_find_clusters\<close>; its state is \<open>(visited, clusters)\<close>.\<close>

definition find_clusters_step ::
  "citation_graph \<Rightarrow> string \<Rightarrow> string set \<times> string set list \<Rightarrow> string set \<times> string set list"
where
  "find_clusters_step g node st =
     (case st of (visited, clusters) \<Rightarrow>
        if node \<notin> visited
        then (case explore_cluster g node visited of
                (cluster, visited') \<Rightarrow>
                  (visited', if card cluster > 1 then clusters @ [cluster] else clusters))
        else st)"

definition find_clusters :: "env \<Rightarrow> citation_graph \<Rightarrow> string set list" where
  "find_clusters e g = snd (fold (find_clusters_step g) (set_order e (nodes g)) ({}, []))"

definition calculate_network_density :: "citation_graph \<Rightarrow> real" where
  "calculate_network_density g =
     (let num_nodes = card (nodes g)
      in if num_nodes < 2 then 0
         else
           let num_edges = length (edges g);
               max_edges = num_nodes * (num_nodes - 1)
           in if max_edges > 0 then real num_edges / real max_edges else 0)"

definition analyze_temporal_distribution :: "reference list \<Rightarrow> (int \<times> nat) list" where
  "analyze_temporal_distribution references =
     fold (\<lambda>ref distribution.
             case truthy_year (year ref) of
               [] \<Rightarrow> distribution
             | y # _ \<Rightarrow> count_up y distribution)
          references []"

definition calculate_citation_diversity ::
  "extracted_citation list \<Rightarrow> reference list \<Rightarrow> real"
where
  "calculate_citation_diversity citations references =
     (if references = [] then 0
      else
        let venues = set (concat (map (\<lambda>ref. case venue ref of
                                               None \<Rightarrow> []
                                             | Some v \<Rightarrow> if v \<noteq> [] then [lower v] else [])
                                      references));
            author_set = set (concat (map (\<lambda>ref. map lower (authors ref)) references));
            venue_diversity = min (real (card venues) / real (max (length references) 1)) 1;
            author_diversity = min (real (card author_set) / real (length references * 2)) 1
        in venue_diversity * 0.6 + author_diversity * 0.4)"

definition calculate_citation_risk_score ::
  "real \<Rightarrow> citation_pattern list \<Rightarrow> real \<Rightarrow> real \<Rightarrow> real"
where
  "calculate_citation_risk_score self_citation_rate patterns density diversity =
     (let risk = 0;
          risk = (if self_citation_rate > 0.3 then risk + 0.3
                  else if self_citation_rate > 0.2 then risk + 0.15 else risk);
          suspicious = filter (\<lambda>p. suspicion_score p > 0.5) patterns;
          risk = risk + min (real (length suspicious) * 0.15) 0.4;
          risk = (if density > 0.7 then risk + 0.15 else risk);
          risk = (if diversity < 0.3 then risk + 0.15 else risk)
      in min risk 1)"

definition generate_recommendations ::
  "env \<Rightarrow> real \<Rightarrow> citation_pattern list \<Rightarrow> real \<Rightarrow> (int \<times> nat) list \<Rightarrow> piece list list"
where
  "generate_recommendations e self_citation_rate patterns diversity temporal_dist =
     (if self_citation_rate > 0.3
      then [[Txt ''Self-citation rate is high ('', Flt ''.1%'' self_citation_rate,
             Txt ''). Consider citing more diverse sources.'']]
      else [])
     @ (if diversity < 0.4
        then [[Txt ''Citation diversity is low. Expand literature review to include more venues and authors.'']]
        else [])
     @ (if temporal_dist \<noteq> []
        then (let recent_years = filter (\<lambda>y. y \<ge> current_year e - 3) (map fst temporal_dist)
              in if recent_years = []
                 then [[Txt ''Consider including more recent references (last 3 years).'']]
                 else [])
        else [])
     @ (let suspicious = filter (\<lambda>p. suspicion_score p > 0.6) patterns
        in if suspicious \<noteq> []
           then [[Txt ''Detected '', Num (int (length suspicious)),
                  Txt '' suspicious citation patterns. Review citation practices for potential manipulation.'']]
           else [])"

record citation_analysis_result =
  manuscript_id :: string
  total_citations :: nat
  unique_citations :: nat
  self_citations :: nat
  self_citation_rate :: real
  citation_clusters :: "string set list"
  suspicious_patterns :: "citation_pattern list"
  citation_network_density :: real
  temporal_distribution :: "(int \<times> nat) list"
  author_citation_diversity :: real
  analysis_timestamp :: nat
  risk_score :: real
  recommendations :: "piece list list"

text \<open>
  What \<^verbatim>\<open>analyze\<close> computes once the citations are extracted, the graph is built, the
  patterns are detected and the self-citations counted.
\<close>

definition analysis_of ::
  "env \<Rightarrow> extracted_citation list \<Rightarrow> reference list \<Rightarrow> citation_graph \<Rightarrow>
   citation_pattern list \<Rightarrow> nat \<Rightarrow> citation_analysis_result"
where
  "analysis_of e citations references graph patterns self_count =
     (let total = length citations;
          unique = card (set (map reference_id citations));
          rate = real self_count / real (max total 1);
          clusters = find_clusters e graph;
          density = calculate_network_density graph;
          temporal_dist = analyze_temporal_distribution references;
          diversity = calculate_citation_diversity citations references;
          risk = calculate_citation_risk_score rate patterns density diversity;
          recs = generate_recommendations e rate patterns diversity temporal_dist
      in \<lparr>manuscript_id = ''manuscript'',
          total_citations = total,
          unique_citations = unique,
          self_citations = self_count,
          self_citation_rate = rate,
          citation_clusters = clusters,
          suspicious_patterns = filter (\<lambda>p. suspicion_score p > 0.5) patterns,
          citation_network_density = density,
          temporal_distribution = temporal_dist,
          author_citation_diversity = diversity,
          analysis_timestamp = clock e,
          risk_score = risk,
          recommendations = recs\<rparr>)"

text \<open>
  \<^verbatim>\<open>analyze\<close>: \<open>author_names\<close> is optional, and \<^verbatim>\<open>author_names or []\<close> reads a
  missing list as the empty one. The phases run in the order of the source: the
  extraction, the graph, the patterns (where the ring search can exhaust the stack), and
  then the count of the self-citations; the first exception ends the analysis.
\<close>

definition analyze ::
  "env \<Rightarrow> string \<Rightarrow> reference list \<Rightarrow> string list option \<Rightarrow> py_error + citation_analysis_result"
where
  "analyze e manuscript_text references author_names =
     (case extract_citations manuscript_text references of Inl err \<Rightarrow> Inl err
      | Inr citations \<Rightarrow>
          (let graph = build_graph citations references
           in case detect_patterns e graph citations of Inl err \<Rightarrow> Inl err
              | Inr patterns \<Rightarrow>
                  (case count_self_citations citations references
                          (case author_names of None \<Rightarrow> [] | Some names \<Rightarrow> names) of
                     Inl err \<Rightarrow> Inl err
                   | Inr self_count \<Rightarrow>
                       Inr (analysis_of e citations references graph patterns self_count))))"

text \<open>
  The node set as the specification words it: the reference ids \<open>1..N\<close> that some
  extracted citation refers to.
\<close>

definition cited_reference_ids :: "extracted_citation list \<Rightarrow> reference list \<Rightarrow> string set" where
  "cited_reference_ids citations references =
     set (filter (\<lambda>r. r \<in> reference_id ` set citations)
                 (map str_nat [1 ..< length references + 1]))"

text \<open>
  An interpreter run for the examples: the year is 2026, a set of reference ids
  below 100 is iterated in numeric order, and the stack has room for 990 nested calls
  of the ring search.
\<close>

definition example_env :: env where
  "example_env =
     \<lparr>set_order = (\<lambda>S. filter (\<lambda>x. x \<in> S) (map str_nat [1 ..< 100])),
      current_year = 2026, clock = 0, recursion_limit = 990\<rparr>"

text \<open>
  The concentration measure as the specification words it: the number of citations of a
  reference, and the largest share a single reference has of all citations.
\<close>

definition citation_count :: "extracted_citation list \<Rightarrow> string \<Rightarrow> nat" where
  "citation_count citations r = count_list (map reference_id citations) r"

definition max_share :: "extracted_citation list \<Rightarrow> real" where
  "max_share citations =
     real (Max (citation_count citations ` reference_id ` set citations))
     / real (length citations)"

text \<open>A citation of reference \<open>r\<close>, for the examples.\<close>

definition citation_of :: "string \<Rightarrow> extracted_citation" where
  "citation_of r =
     \<lparr>reference_id = r, position = 0, context_text = ''See [1].'', sentence = ''See [1].'',
      citation_type = ''support''\<rparr>"

text \<open>
  Three references of one venue, whose coupling edges form a triangle, and a second
  interpreter run that differs from \<open>example_env\<close> only in that it iterates every set
  in the opposite order.
\<close>

definition three_references :: "reference list" where
  "three_references =
     [\<lparr>authors = [''Smith''], title = None, year = Some 2020, venue = Some ''Nature''\<rparr>,
      \<lparr>authors = [''Jones''], title = None, year = Some 2021, venue = Some ''Nature''\<rparr>,
      \<lparr>authors = [''Brown''], title = None, year = Some 2019, venue = Some ''Nature''\<rparr>]"

definition reversed_env :: env where
  "reversed_env = example_env\<lparr>set_order := (\<lambda>S. rev (set_order example_env S))\<rparr>"

text \<open>
  Inputs of the examples for the ring search: two references of one venue, cited so that
  the co-citation pass adds a self-loop and an edge between them; and four references
  of four venues, for a search that runs out of a small stack.
\<close>

definition two_references :: "reference list" where
  "two_references =
     [\<lparr>authors = [''Smith''], title = None, year = None, venue = Some ''Nature''\<rparr>,
      \<lparr>authors = [''Jones''], title = None, year = None, venue = Some ''Nature''\<rparr>]"

definition looped_graph :: citation_graph where
  "looped_graph =
     build_graph [citation_of ''1'', citation_of ''1'', citation_of ''2''] two_references"

definition four_references :: "reference list" where
  "four_references =
     [\<lparr>authors = [''Adams''], title = None, year = None, venue = Some ''Nature''\<rparr>,
      \<lparr>authors = [''Brown''], title = None, year = None, venue = Some ''Science''\<rparr>,
      \<lparr>authors = [''Clark''], title = None, year = None, venue = Some ''Cell''\<rparr>,
      \<lparr>authors = [''Davis''], title = None, year = None, venue = Some ''Neuron''\<rparr>]"

section \<open>Properties of the extractor\<close>

text \<open>Collecting the results of a loop whose body can raise.\<close>

lemma collect_total:
  "(\<And>x. x \<in> set xs \<Longrightarrow> \<exists>ys. f x = Inr ys) \<Longrightarrow> \<exists>zs. collect f xs = Inr zs"
proof (induction xs)
  case Nil
  then show ?case by simp
next
  case (Cons x xs)
  from Cons.prems obtain ys where "f x = Inr ys" by auto
  moreover from Cons obtain zs where "collect f xs = Inr zs" by auto
  ultimately show ?case by simp
qed

lemma collect_member:
  "collect f xs = Inr zs \<Longrightarrow>
   z \<in> set zs \<longleftrightarrow> (\<exists>x \<in> set xs. \<exists>ys. f x = Inr ys \<and> z \<in> set ys)"
  by (induction xs arbitrary: zs) (auto split: sum.splits)

lemma collect_each:
  "collect f xs = Inr zs \<Longrightarrow> x \<in> set xs \<Longrightarrow> \<exists>ys. f x = Inr ys"
  by (induction xs arbitrary: zs) (auto split: sum.splits)

lemma collect_nothing: "(\<And>x. x \<in> set xs \<Longrightarrow> f x = Inr []) \<Longrightarrow> collect f xs = Inr []"
  by (induction xs) auto








section \<open>Properties of the graph builder\<close>

lemma nodes_add_edge [simp]: "nodes (add_edge g a b t) = nodes g"
  by (simp add: add_edge_def)

lemma nodes_co_citation_edge [simp]: "nodes (co_citation_edge p g) = nodes g"
  by (simp add: co_citation_edge_def split: prod.splits)

lemma nodes_coupling_edge [simp]: "nodes (coupling_edge p g) = nodes g"
  by (simp add: coupling_edge_def split: prod.splits)

lemma nodes_fold_co: "nodes (fold co_citation_edge ps g) = nodes g"
  by (induction ps arbitrary: g) simp_all

lemma nodes_fold_coupling: "nodes (fold coupling_edge ps g) = nodes g"
  by (induction ps arbitrary: g) simp_all

lemma nodes_fold_groups_co:
  "nodes (fold (\<lambda>(ctx, ref_ids) g.
                  if P ref_ids then fold co_citation_edge (pairs ref_ids) g else g) d g)
   = nodes g"
  by (induction d arbitrary: g) (simp_all add: nodes_fold_co split: prod.splits)

lemma nodes_fold_groups_coupling:
  "nodes (fold (\<lambda>(v, ref_ids) g.
                  if P ref_ids then fold coupling_edge (pairs ref_ids) g else g) d g)
   = nodes g"
  by (induction d arbitrary: g) (simp_all add: nodes_fold_coupling split: prod.splits)

lemma nodes_add_co_citation_edges [simp]: "nodes (add_co_citation_edges g cs) = nodes g"
  by (simp add: add_co_citation_edges_def nodes_fold_groups_co)

lemma nodes_add_bibliographic_coupling_edges [simp]:
  "nodes (add_bibliographic_coupling_edges g refs) = nodes g"
  by (simp add: add_bibliographic_coupling_edges_def nodes_fold_groups_coupling Let_def)

lemma nodes_fold_add_node:
  "nodes (fold (\<lambda>(ref_id, ref) g. add_node g ref_id (f ref)) m g) = nodes g \<union> fst ` set m"
  by (induction m arbitrary: g) (auto simp: add_node_def)

lemma keys_fold_update:
  "fst ` set (fold (\<lambda>(i, ref). AList.update (k i) ref) xs al)
   = fst ` set al \<union> k ` fst ` set xs"
proof (induction xs arbitrary: al)
  case Nil
  then show ?case by simp
next
  case (Cons x xs)
  obtain i r where x: "x = (i, r)" by (cases x)
  show ?case
    by (simp add: x Cons.IH dom_update)
qed

lemma fst_set_enumerate: "fst ` set (enumerate n xs) = {n ..< n + length xs}"
  by (induction xs arbitrary: n) (auto simp: image_iff)

lemma nodes_build_graph:
  "nodes (build_graph citations references) = str_nat ` {1 .. length references}"
proof -
  have "(\<lambda>i. str_nat (i + 1)) ` {0 ..< length references} = str_nat ` {1 .. length references}"
    by (auto simp: image_iff) (metis Suc_pred Suc_le_eq atLeast0LessThan lessThan_iff)
  then show ?thesis
    by (simp add: build_graph_def Let_def nodes_fold_add_node keys_fold_update
        fst_set_enumerate)
qed

text \<open>
  C4, as the code has it: \<^verbatim>\<open>build_graph\<close> adds one node for every entry of the
  reference list, so the node set is the set of the ids \<open>1..N\<close> of the \<open>N\<close> references,
  whatever the citations are. (The claim that a reference id is a node iff some
  citation resolves to it fails for a reference that is never cited.)
\<close>

theorem C4_nodes_are_all_reference_ids:
  "nodes (build_graph citations references) = str_nat ` {1 .. length references}"
  by (rule nodes_build_graph)

theorem C4_nodes_witness:
  "nodes (build_graph []
     [\<lparr>authors = [''Smith''], title = None, year = Some 2020, venue = None\<rparr>,
      \<lparr>authors = [''Jones''], title = None, year = None, venue = Some ''Nature''\<rparr>])
   = {''1'', ''2''}"
  unfolding C4_nodes_are_all_reference_ids by code_simp

theorem C4_uncited_reference_is_node_counterexample:
  "nodes (build_graph []
     [\<lparr>authors = [''Smith''], title = None, year = Some 2020, venue = None\<rparr>])
   \<noteq> cited_reference_ids []
     [\<lparr>authors = [''Smith''], title = None, year = Some 2020, venue = None\<rparr>]"
  by code_simp

text \<open>
  C6, at an input where the code adds a pair more than once: two sentences that both
  cite \<open>[1,2]\<close> share one context, the list of reference ids of that context is
  \<open>1, 2, 1, 2\<close>, and the co-citation pass adds an edge for every pair of positions of
  that list: three edges \<open>(1,2)\<close>, one edge \<open>(2,1)\<close> and the loops \<open>(1,1)\<close> and \<open>(2,2)\<close>.
\<close>

theorem C6_co_citation_edges_repeat:
  "map_sum id
     (\<lambda>cs. edges (build_graph cs
        [\<lparr>authors = [''Smith''], title = None, year = None, venue = None\<rparr>,
         \<lparr>authors = [''Jones''], title = None, year = None, venue = None\<rparr>]))
     (extract_citations ''Prior work [1,2] is extended. Our method follows [1,2].''
        [\<lparr>authors = [''Smith''], title = None, year = None, venue = None\<rparr>,
         \<lparr>authors = [''Jones''], title = None, year = None, venue = None\<rparr>])
   = Inr [(''1'', ''2''), (''1'', ''1''), (''1'', ''2''), (''2'', ''1''), (''2'', ''2''),
          (''1'', ''2'')]"
  by code_simp

section \<open>Properties of the pattern detector\<close>

lemma in_get_neighbors:
  "x \<in> set (get_neighbors g n)
   \<longleftrightarrow> (n, x) \<in> set (edges g) \<or> (x \<noteq> n \<and> (x, n) \<in> set (edges g))"
  unfolding get_neighbors_def by (auto split: if_splits)

lemma get_neighbors_endpoints: "set (get_neighbors g n) \<subseteq> endpoints g"
  by (auto simp: in_get_neighbors endpoints_def image_iff) force+

text \<open>
  The search returns when the stack has room for one call per node with an edge:
  every nested call has one more node of \<open>endpoints g\<close> in \<open>visited\<close>.
\<close>

lemma ring_loop_returns:
  assumes nested: "\<And>n. n \<in> set ns \<Longrightarrow> n \<notin> visited \<Longrightarrow>
      \<exists>r. find_ring_size g start_node n (Some visited) (depth - 1) = Inr r"
  shows "\<exists>r. ring_loop g start_node visited max_ring ns depth = Inr r"
  using nested
proof (induction ns arbitrary: max_ring)
  case Nil
  then show ?case by simp
next
  case (Cons n ns)
  show ?case
  proof (cases "n \<noteq> start_node \<and> n \<notin> visited")
    case True
    then obtain r where "find_ring_size g start_node n (Some visited) (depth - 1) = Inr r"
      using Cons.prems by auto
    then show ?thesis
      using True Cons.IH [of "max max_ring r"] Cons.prems by auto
  next
    case False
    then show ?thesis
      using Cons.IH [of max_ring] Cons.prems by auto
  qed
qed

lemma find_ring_size_returns:
  "card (insert current_node (endpoints g)
         - (case visited_arg of None \<Rightarrow> {start_node} | Some v \<Rightarrow> v)) < depth
   \<Longrightarrow> \<exists>r. find_ring_size g start_node current_node visited_arg depth = Inr r"
proof (induction depth arbitrary: current_node visited_arg)
  case 0
  then show ?case by simp
next
  case (Suc depth)
  define visited where "visited = (case visited_arg of None \<Rightarrow> {start_node} | Some v \<Rightarrow> v)"
  show ?case
  proof (cases "current_node \<in> visited")
    case True
    then show ?thesis
      by (simp add: find_ring_size.simps visited_def)
  next
    case False
    have fin: "finite (insert current_node (endpoints g) - visited)"
      by (simp add: endpoints_def)
    have "\<exists>r. ring_loop g start_node (insert current_node visited)
            (card (insert current_node visited)) (get_neighbors g current_node) (Suc depth)
          = Inr r"
    proof (rule ring_loop_returns)
      fix n
      assume n: "n \<in> set (get_neighbors g current_node)" and nv: "n \<notin> insert current_node visited"
      have "n \<in> endpoints g"
        using n get_neighbors_endpoints by blast
      then have "insert n (endpoints g) - insert current_node visited
          \<subset> insert current_node (endpoints g) - visited"
        using False by auto
      then have "card (insert n (endpoints g) - insert current_node visited)
          < card (insert current_node (endpoints g) - visited)"
        using fin by (rule psubset_card_mono [rotated])
      then have "card (insert n (endpoints g) - insert current_node visited) < depth"
        using Suc.prems by (simp add: visited_def)
      then show "\<exists>r. find_ring_size g start_node n (Some (insert current_node visited))
                   (Suc depth - 1) = Inr r"
        using Suc.IH [where current_node = n and visited_arg = "Some (insert current_node visited)"]
        by simp
    qed
    then show ?thesis
      using False by (simp add: find_ring_size.simps visited_def Let_def)
  qed
qed

lemma ring_loop_reaches_start:
  assumes "start_node \<in> set ns"
    and "\<And>n. n \<in> set ns \<Longrightarrow> n \<notin> visited \<Longrightarrow>
      \<exists>r. find_ring_size g start_node n (Some visited) (depth - 1) = Inr r"
  shows "ring_loop g start_node visited max_ring ns depth = Inr (card visited + 1)"
  using assms
proof (induction ns arbitrary: max_ring)
  case Nil
  then show ?case by simp
next
  case (Cons n ns)
  show ?case
  proof (cases "n = start_node")
    case True
    then show ?thesis by simp
  next
    case False
    then have s: "start_node \<in> set ns"
      using Cons.prems(1) by auto
    show ?thesis
    proof (cases "n \<notin> visited")
      case True
      then obtain r where "find_ring_size g start_node n (Some visited) (depth - 1) = Inr r"
        using Cons.prems(2) by auto
      then show ?thesis
        using True False Cons.IH [OF s, of "max max_ring r"] Cons.prems(2) by auto
    next
      case False2: False
      then show ?thesis
        using False Cons.IH [OF s, of max_ring] Cons.prems(2) by auto
    qed
  qed
qed

lemma find_ring_size_edge:
  assumes "a \<noteq> b" and "a \<in> set (get_neighbors g b)" and "card (endpoints g) \<le> depth"
  shows "find_ring_size g a b None depth = Inr 3"
proof -
  have fin: "finite (endpoints g)"
    by (simp add: endpoints_def)
  have ab: "a \<in> endpoints g" "b \<in> endpoints g"
    using assms(2) by (auto simp: in_get_neighbors endpoints_def image_iff) force+
  have c2: "card {b, a} = 2"
    using assms(1) by simp
  have "2 \<le> card (endpoints g)"
    using card_mono [OF fin, of "{b, a}"] ab c2 by simp
  then have d: "depth \<noteq> 0" "2 \<le> depth"
    using assms(3) by auto
  have "ring_loop g a {b, a} m (get_neighbors g b) depth = Inr (card {b, a} + 1)" for m
  proof (rule ring_loop_reaches_start [OF assms(2)])
    fix n
    assume n: "n \<in> set (get_neighbors g b)" and nv: "n \<notin> {b, a}"
    have "n \<in> endpoints g"
      using n get_neighbors_endpoints by blast
    have "card (endpoints g - {b, a}) = card (endpoints g) - 2"
      using ab c2 fin by (simp add: card_Diff_subset)
    then have "card (insert n (endpoints g) - {b, a}) < depth - 1"
      using \<open>n \<in> endpoints g\<close> \<open>2 \<le> card (endpoints g)\<close> assms(3)
      by (simp add: insert_absorb)
    then show "\<exists>r. find_ring_size g a n (Some {b, a}) (depth - 1) = Inr r"
      using find_ring_size_returns
        [where current_node = n and visited_arg = "Some {b, a}" and depth = "depth - 1"]
      by simp
  qed
  then have "ring_loop g a {b, a} m (get_neighbors g b) depth = Inr 3" for m
    by (simp add: c2)
  then show ?thesis
    using assms(1) d by (simp add: find_ring_size.simps)
qed

lemma find_ring_size_self_loop:
  "0 < depth \<Longrightarrow> find_ring_size g a a None depth = Inr 1"
  by (simp add: find_ring_size.simps)

lemma cartels_of_neighbor_self_loop:
  "0 < recursion_limit e \<Longrightarrow> cartels_of_neighbor e g a a = Inr []"
  by (simp add: cartels_of_neighbor_def find_ring_size_self_loop
      RECIPROCAL_CITATION_THRESHOLD_def)

lemma cartels_of_neighbor_returns:
  assumes "card (endpoints g) \<le> recursion_limit e"
  shows "\<exists>ps. cartels_of_neighbor e g node neighbor = Inr ps"
proof (cases "node \<in> set (get_neighbors g neighbor)")
  case False
  then show ?thesis
    by (simp add: cartels_of_neighbor_def)
next
  case True
  have fin: "finite (endpoints g)"
    by (simp add: endpoints_def)
  have nd: "node \<in> endpoints g"
    using True get_neighbors_endpoints by blast
  have nb: "neighbor \<in> endpoints g"
    using True by (auto simp: in_get_neighbors endpoints_def image_iff) force+
  have "card (endpoints g - {node}) < card (endpoints g)"
    using nd fin by (intro psubset_card_mono) auto
  then have "card (insert neighbor (endpoints g) - {node}) < recursion_limit e"
    using nb assms by (simp add: insert_absorb)
  then obtain r where "find_ring_size g node neighbor None (recursion_limit e) = Inr r"
    using find_ring_size_returns
      [where current_node = neighbor and visited_arg = None and start_node = node
         and depth = "recursion_limit e" and g = g]
    by auto
  then show ?thesis
    by (simp add: cartels_of_neighbor_def True)
qed

lemma detect_citation_cartels_returns:
  assumes "card (endpoints g) \<le> recursion_limit e"
  shows "\<exists>ps. detect_citation_cartels e g = Inr ps"
  unfolding detect_citation_cartels_def
  by (intro collect_total cartels_of_neighbor_returns assms)


lemma ring_loop_start_value:
  "start_node \<in> set ns \<Longrightarrow> ring_loop g start_node visited max_ring ns depth = Inr r
   \<Longrightarrow> r = card visited + 1"
  by (induction ns arbitrary: max_ring) (auto split: sum.splits if_splits)

lemma cartels_of_neighbor_reported:
  assumes "cartels_of_neighbor e g x y = Inr ps" and "p \<in> set ps"
  shows "x \<noteq> y \<and> p = cartel_pattern x y 3"
proof -
  from assms obtain r where nb: "x \<in> set (get_neighbors g y)"
    and r: "find_ring_size g x y None (recursion_limit e) = Inr r"
    and r3: "3 \<le> r" and p: "p = cartel_pattern x y r"
    by (auto simp: cartels_of_neighbor_def RECIPROCAL_CITATION_THRESHOLD_def
        split: if_splits sum.splits)
  have xy: "x \<noteq> y"
  proof
    assume "x = y"
    then have "r = 1"
      using r by (simp add: find_ring_size.simps split: if_splits)
    then show False
      using r3 by simp
  qed
  then have "card {y, x} = 2"
    by simp
  moreover have "ring_loop g x {y, x} (card {y, x}) (get_neighbors g y) (recursion_limit e)
      = Inr r"
    using r xy by (simp add: find_ring_size.simps split: if_splits)
  ultimately have "r = 3"
    using ring_loop_start_value [OF nb] by fastforce
  then show ?thesis
    using xy p by simp
qed

lemma detect_citation_cartels_reported:
  assumes "detect_citation_cartels e g = Inr ps" and "p \<in> set ps"
  shows "\<exists>x y. x \<noteq> y \<and> p = cartel_pattern x y 3"
proof -
  from assms obtain x qs where "collect (cartels_of_neighbor e g x) (get_neighbors g x) = Inr qs"
    and "p \<in> set qs"
    unfolding detect_citation_cartels_def by (auto simp: collect_member)
  then obtain y rs where "cartels_of_neighbor e g x y = Inr rs" and "p \<in> set rs"
    by (auto simp: collect_member)
  then show ?thesis
    using cartels_of_neighbor_reported by blast
qed

text \<open>
  C10, as the code has it. Let the stack have room for one nested call per node that has
  an edge (\<open>card (endpoints g) \<le> recursion_limit e\<close>). Then for an edge between two
  \<^emph>\<open>distinct\<close> nodes the ring-size search returns exactly 3 from either endpoint (the
  start node is among the neighbours of the other endpoint, and reaching it returns the
  two visited nodes plus one), and the cartel detector returns and emits a
  \<open>citation_cartel\<close> pattern, of suspicion 0.3, as soon as one endpoint is in the node
  set it iterates over. An edge from a node to itself, which the co-citation pass adds
  when one context cites a reference twice, has ring size 1 and is not reported; and
  whenever the detector returns, every pattern it reports joins two distinct nodes with
  ring size exactly 3. The claim fails for a graph whose only edge is a self-loop, and
  without the bound on the stack the search can raise \<^verbatim>\<open>RecursionError\<close>
  (\<open>ring_search_exhausts_stack\<close> below).
\<close>

theorem C10_edge_between_distinct_nodes_is_cartel:
  "((a, b) \<in> set (edges g) \<and> a \<noteq> b \<and> (a \<in> nodes g \<or> b \<in> nodes g)
      \<and> set (set_order e (nodes g)) = nodes g \<and> card (endpoints g) \<le> recursion_limit e
    \<longrightarrow> find_ring_size g a b None (recursion_limit e) = Inr 3
        \<and> find_ring_size g b a None (recursion_limit e) = Inr 3
        \<and> (\<exists>ps. detect_citation_cartels e g = Inr ps
              \<and> (\<exists>p \<in> set ps. pattern_type p = ''citation_cartel''
                    \<and> suspicion_score p = 0.3)))
   \<and> (0 < recursion_limit e
    \<longrightarrow> find_ring_size g c c None (recursion_limit e) = Inr 1
        \<and> cartels_of_neighbor e g c c = Inr [])
   \<and> (detect_citation_cartels e g = Inr qs \<and> q \<in> set qs
    \<longrightarrow> (\<exists>x y. x \<noteq> y \<and> q = cartel_pattern x y 3))"
proof (intro conjI impI)
  assume h: "(a, b) \<in> set (edges g) \<and> a \<noteq> b \<and> (a \<in> nodes g \<or> b \<in> nodes g)
      \<and> set (set_order e (nodes g)) = nodes g \<and> card (endpoints g) \<le> recursion_limit e"
  then have edge: "(a, b) \<in> set (edges g)" and neq: "a \<noteq> b"
    and node: "a \<in> nodes g \<or> b \<in> nodes g"
    and order: "set (set_order e (nodes g)) = nodes g"
    and limit: "card (endpoints g) \<le> recursion_limit e"
    by simp_all
  have ab: "a \<in> set (get_neighbors g b)" and ba: "b \<in> set (get_neighbors g a)"
    using edge neq by (auto simp: in_get_neighbors)
  show r1: "find_ring_size g a b None (recursion_limit e) = Inr 3"
    using neq ab limit by (rule find_ring_size_edge)
  show r2: "find_ring_size g b a None (recursion_limit e) = Inr 3"
    using neq ba limit by (intro find_ring_size_edge) auto
  have c1: "cartels_of_neighbor e g a b = Inr [cartel_pattern a b 3]"
    by (simp add: cartels_of_neighbor_def ab r1 RECIPROCAL_CITATION_THRESHOLD_def)
  have c2: "cartels_of_neighbor e g b a = Inr [cartel_pattern b a 3]"
    by (simp add: cartels_of_neighbor_def ba r2 RECIPROCAL_CITATION_THRESHOLD_def)
  have "\<exists>x y. x \<in> nodes g \<and> y \<in> set (get_neighbors g x)
          \<and> cartels_of_neighbor e g x y = Inr [cartel_pattern x y 3]"
    using node ab ba c1 c2 by blast
  then obtain x y where x: "x \<in> set (set_order e (nodes g))"
    and y: "y \<in> set (get_neighbors g x)"
    and c: "cartels_of_neighbor e g x y = Inr [cartel_pattern x y 3]"
    using order by auto
  obtain ps where ps: "detect_citation_cartels e g = Inr ps"
    using detect_citation_cartels_returns [OF limit] by blast
  then obtain qs where qs: "collect (cartels_of_neighbor e g x) (get_neighbors g x) = Inr qs"
    unfolding detect_citation_cartels_def using x collect_each by fastforce
  have "cartel_pattern x y 3 \<in> set [cartel_pattern x y 3]"
    by simp
  then have "cartel_pattern x y 3 \<in> set qs"
    unfolding collect_member [OF qs] using y c by blast
  then have "cartel_pattern x y 3 \<in> set ps"
    unfolding collect_member [OF ps [unfolded detect_citation_cartels_def]]
    using x qs by blast
  moreover have "pattern_type (cartel_pattern x y 3) = ''citation_cartel''"
    "suspicion_score (cartel_pattern x y 3) = 0.3"
    by (simp_all add: cartel_pattern_def)
  ultimately show "\<exists>ps. detect_citation_cartels e g = Inr ps
      \<and> (\<exists>p \<in> set ps. pattern_type p = ''citation_cartel'' \<and> suspicion_score p = 0.3)"
    using ps by blast
next
  assume "0 < recursion_limit e"
  then show "find_ring_size g c c None (recursion_limit e) = Inr 1"
    by (rule find_ring_size_self_loop)
next
  assume "0 < recursion_limit e"
  then show "cartels_of_neighbor e g c c = Inr []"
    by (rule cartels_of_neighbor_self_loop)
next
  assume "detect_citation_cartels e g = Inr qs \<and> q \<in> set qs"
  then show "\<exists>x y. x \<noteq> y \<and> q = cartel_pattern x y 3"
    using detect_citation_cartels_reported by blast
qed

theorem C10_edge_and_self_loop_witness:
  "edges looped_graph = [(''1'', ''1''), (''1'', ''2''), (''1'', ''2'')]
   \<and> card (endpoints looped_graph) \<le> recursion_limit example_env
   \<and> find_ring_size looped_graph ''1'' ''2'' None (recursion_limit example_env) = Inr 3
   \<and> find_ring_size looped_graph ''2'' ''1'' None (recursion_limit example_env) = Inr 3
   \<and> (\<exists>ps. detect_citation_cartels example_env looped_graph = Inr ps
         \<and> (\<exists>p \<in> set ps. pattern_type p = ''citation_cartel'' \<and> suspicion_score p = 0.3))
   \<and> find_ring_size looped_graph ''1'' ''1'' None (recursion_limit example_env) = Inr 1
   \<and> cartels_of_neighbor example_env looped_graph ''1'' ''1'' = Inr []
   \<and> detect_citation_cartels example_env looped_graph
       = Inr [cartel_pattern ''1'' ''2'' 3, cartel_pattern ''1'' ''2'' 3,
              cartel_pattern ''2'' ''1'' 3, cartel_pattern ''2'' ''1'' 3]
   \<and> (\<exists>x y. x \<noteq> y \<and> cartel_pattern ''2'' ''1'' 3 = cartel_pattern x y 3)"
proof -
  have es: "edges looped_graph = [(''1'', ''1''), (''1'', ''2''), (''1'', ''2'')]"
    by code_simp
  have h1: "(''1'', ''2'') \<in> set (edges looped_graph)"
    by (simp add: es)
  have h2: "''1'' \<noteq> ''2''"
    by simp
  have h3: "''1'' \<in> nodes looped_graph \<or> ''2'' \<in> nodes looped_graph"
    by code_simp
  have h4: "set (set_order example_env (nodes looped_graph)) = nodes looped_graph"
    by code_simp
  have h5: "card (endpoints looped_graph) \<le> recursion_limit example_env"
    by code_simp
  have h6: "0 < recursion_limit example_env"
    by code_simp
  have h7: "detect_citation_cartels example_env looped_graph
       = Inr [cartel_pattern ''1'' ''2'' 3, cartel_pattern ''1'' ''2'' 3,
              cartel_pattern ''2'' ''1'' 3, cartel_pattern ''2'' ''1'' 3]"
    by code_simp
  have h8: "cartel_pattern ''2'' ''1'' 3
      \<in> set [cartel_pattern ''1'' ''2'' 3, cartel_pattern ''1'' ''2'' 3,
              cartel_pattern ''2'' ''1'' 3, cartel_pattern ''2'' ''1'' 3]"
    by simp
  note t = C10_edge_between_distinct_nodes_is_cartel
    [where a = "''1''" and b = "''2''" and c = "''1''" and g = looped_graph
       and e = example_env and q = "cartel_pattern ''2'' ''1'' 3"
       and qs = "[cartel_pattern ''1'' ''2'' 3, cartel_pattern ''1'' ''2'' 3,
                  cartel_pattern ''2'' ''1'' 3, cartel_pattern ''2'' ''1'' 3]"]
  from t h1 h2 h3 h4 h5 have a: "find_ring_size looped_graph ''1'' ''2'' None (recursion_limit example_env) = Inr 3
   \<and> find_ring_size looped_graph ''2'' ''1'' None (recursion_limit example_env) = Inr 3
   \<and> (\<exists>ps. detect_citation_cartels example_env looped_graph = Inr ps
         \<and> (\<exists>p \<in> set ps. pattern_type p = ''citation_cartel'' \<and> suspicion_score p = 0.3))"
    by blast
  from t h6 have b: "find_ring_size looped_graph ''1'' ''1'' None (recursion_limit example_env) = Inr 1
   \<and> cartels_of_neighbor example_env looped_graph ''1'' ''1'' = Inr []"
    by blast
  from t h7 h8 have c: "\<exists>x y. x \<noteq> y \<and> cartel_pattern ''2'' ''1'' 3 = cartel_pattern x y 3"
    by blast
  show ?thesis
    by (intro conjI es h5 h7 c a [THEN conjunct1] a [THEN conjunct2, THEN conjunct1]
        a [THEN conjunct2, THEN conjunct2] b [THEN conjunct1] b [THEN conjunct2])
qed

theorem C10_self_loop_counterexample:
  "map_sum id
     (\<lambda>cs. let g = build_graph cs
                  [\<lparr>authors = [''Smith''], title = None, year = None, venue = None\<rparr>]
           in (edges g, detect_citation_cartels example_env g))
     (extract_citations ''The bound of [1] is tight, see also [1].''
        [\<lparr>authors = [''Smith''], title = None, year = None, venue = None\<rparr>])
   = Inr ([(''1'', ''1'')], Inr [])"
  by code_simp

text \<open>
  Four references cited in one context give six co-citation edges; with room for two
  nested calls only, the search from the last node raises, and so does the analysis.
\<close>

lemma ring_search_exhausts_stack:
  "analyze (example_env\<lparr>recursion_limit := 2\<rparr>) ''[3] [4] [2] [1]'' four_references None
   = Inl RecursionError"
  by code_simp






lemma detect_patterns_returns:
  assumes "card (endpoints g) \<le> recursion_limit e"
  shows "\<exists>ps. detect_patterns e g cs = Inr ps"
  using detect_citation_cartels_returns [OF assms]
  by (auto simp: detect_patterns_def)

lemma detect_citation_cartels_no_edges:
  "edges g = [] \<Longrightarrow> detect_citation_cartels e g = Inr []"
  unfolding detect_citation_cartels_def
  by (intro collect_nothing) (simp add: get_neighbors_def)

text \<open>Counting the citations of each reference.\<close>

definition counted :: "('k \<times> nat) list \<Rightarrow> 'k \<Rightarrow> nat" where
  "counted d k = (case map_of d k of None \<Rightarrow> 0 | Some n \<Rightarrow> n)"

lemma counted_count_up: "counted (count_up x d) k = counted d k + (if x = k then 1 else 0)"
  by (simp add: counted_def count_up_def update_conv')

lemma counted_fold: "counted (fold count_up xs d) k = counted d k + count_list xs k"
  by (induction xs arbitrary: d) (simp_all add: counted_count_up)

lemma keys_count_up: "fst ` set (count_up x d) = insert x (fst ` set d)"
  by (simp add: count_up_def dom_update)

lemma keys_fold_count_up: "fst ` set (fold count_up xs d) = fst ` set d \<union> set xs"
  by (induction xs arbitrary: d) (auto simp: keys_count_up)

lemma distinct_count_up: "distinct (map fst d) \<Longrightarrow> distinct (map fst (count_up x d))"
  by (simp add: count_up_def distinct_update)

lemma distinct_fold_count_up:
  "distinct (map fst d) \<Longrightarrow> distinct (map fst (fold count_up xs d))"
  by (induction xs arbitrary: d) (simp_all add: distinct_count_up)

lemma fold_count_up_entries:
  assumes "(k, n) \<in> set (fold count_up xs [])"
  shows "n = count_list xs k"
proof -
  have "distinct (map fst (fold count_up xs []))"
    by (rule distinct_fold_count_up) simp
  then have "map_of (fold count_up xs []) k = Some n"
    using assms by simp
  then have "counted (fold count_up xs []) k = n"
    by (simp add: counted_def)
  moreover have "counted ([] :: ('a \<times> nat) list) k = 0"
    by (simp add: counted_def)
  ultimately show ?thesis
    by (simp add: counted_fold)
qed

lemma fold_count_up_snd:
  "map snd (fold count_up xs []) = map (count_list xs) (map fst (fold count_up xs []))"
  by (auto simp: fold_count_up_entries)

lemma fold_comp_map: "fold (\<lambda>c. f (h c)) cs d = fold f (map h cs) d"
  by (induction cs arbitrary: d) simp_all

lemma sum_counts: "sum_list (map snd (fold count_up xs [])) = length xs"
proof -
  let ?d = "fold count_up xs []"
  have d: "distinct (map fst ?d)"
    by (rule distinct_fold_count_up) simp
  have k: "set (map fst ?d) = set xs"
    using keys_fold_count_up [of xs "[]"] by simp
  have "sum_list (map snd ?d) = sum_list (map (count_list xs) (map fst ?d))"
    by (subst fold_count_up_snd) simp
  also have "\<dots> = sum (count_list xs) (set (map fst ?d))"
    using d by (rule sum_list_distinct_conv_sum_set)
  also have "\<dots> = length xs"
    unfolding k by (rule sum_count_set) simp_all
  finally show ?thesis .
qed

lemma max_counts:
  assumes "map snd (fold count_up xs []) = v # vs"
  shows "fold max vs v = Max (count_list xs ` set xs)"
proof -
  let ?d = "fold count_up xs []"
  have k: "set (map fst ?d) = set xs"
    using keys_fold_count_up [of xs "[]"] by simp
  have "fold max vs v = Max (set (v # vs))"
    by (rule Max.set_eq_fold [symmetric])
  also have "set (v # vs) = set (map snd ?d)"
    using assms by simp
  also have "\<dots> = count_list xs ` set (map fst ?d)"
    by (subst fold_count_up_snd) (simp add: image_image)
  finally show ?thesis
    unfolding k .
qed

text \<open>
  C7: for a non-empty list of citations the concentration detector returns a pattern
  exactly when the largest share of the citations that one reference has exceeds 0.3;
  the pattern is a \<open>citation_concentration\<close> pattern, its affected references are the
  references whose count is the maximum, each listed once, and its suspicion score is
  \<open>min (share * 1.5) 1\<close>. (The share is an exact quotient here; as a float it compares
  with 0.3 in the same way for every list of fewer than \<open>10^15\<close> citations.)
\<close>

theorem C7_concentration_iff_share_exceeds_30_percent:
  assumes "citations \<noteq> []"
  shows "(detect_concentration g citations \<noteq> None \<longleftrightarrow> max_share citations > 0.3)
       \<and> (\<forall>p. detect_concentration g citations = Some p \<longrightarrow>
             pattern_type p = ''citation_concentration''
           \<and> distinct (affected_references p)
           \<and> set (affected_references p)
               = {r \<in> reference_id ` set citations.
                    citation_count citations r
                    = Max (citation_count citations ` reference_id ` set citations)}
           \<and> suspicion_score p = min (max_share citations * 1.5) 1)"
proof -
  let ?xs = "map reference_id citations"
  let ?d = "fold count_up ?xs []"
  have dd: "fold (\<lambda>citation. count_up (reference_id citation)) citations [] = ?d"
    by (rule fold_comp_map)
  have k: "set (map fst ?d) = set ?xs"
    using keys_fold_count_up [of ?xs "[]"] by simp
  have dist: "distinct (map fst ?d)"
    by (rule distinct_fold_count_up) simp
  have "?d \<noteq> []"
    using k assms by auto
  then obtain v vs where vv: "map snd ?d = v # vs"
    by (cases ?d) auto
  have mx: "fold max vs v = Max (count_list ?xs ` set ?xs)"
    using vv by (rule max_counts)
  have tot: "sum_list (v # vs) = length citations"
    using sum_counts [of ?xs] vv by simp
  have ms: "max_share citations = real (fold max vs v) / real (length citations)"
    by (simp add: max_share_def mx citation_count_def [abs_def])
  have aff: "set (map fst (filter (\<lambda>(ref_id, count). count = fold max vs v) ?d))
       = {r \<in> reference_id ` set citations.
            citation_count citations r
            = Max (citation_count citations ` reference_id ` set citations)}"
    (is "?L = ?R")
  proof
    show "?L \<subseteq> ?R"
    proof
      fix r
      assume "r \<in> ?L"
      then obtain n where rn: "(r, n) \<in> set ?d" and n: "n = fold max vs v"
        by auto
      have "n = count_list ?xs r"
        using rn by (rule fold_count_up_entries)
      moreover have "r \<in> set ?xs"
        using rn k by force
      ultimately show "r \<in> ?R"
        using n mx by (simp add: citation_count_def [abs_def])
    qed
    show "?R \<subseteq> ?L"
    proof
      fix r
      assume r: "r \<in> ?R"
      then have "r \<in> set (map fst ?d)"
        using k by simp
      then obtain n where rn: "(r, n) \<in> set ?d"
        by auto
      have "n = count_list ?xs r"
        using rn by (rule fold_count_up_entries)
      then have "n = fold max vs v"
        using r mx by (simp add: citation_count_def [abs_def])
      then show "r \<in> ?L"
        using rn by force
    qed
  qed
  have dist2: "distinct (map fst (filter (\<lambda>(ref_id, count). count = fold max vs v) ?d))"
    using dist by (rule distinct_map_filter)
  show ?thesis
    using assms aff dist2
    by (auto simp: detect_concentration_def dd vv Let_def ms tot
        simp del: sum_list.Cons set_map)
qed

theorem C7_five_of_nine_witness:
  "map citation_of [''1'', ''1'', ''1'', ''1'', ''1'', ''2'', ''3'', ''4'', ''5''] \<noteq> []
   \<and> detect_concentration (build_graph [] [])
        (map citation_of [''1'', ''1'', ''1'', ''1'', ''1'', ''2'', ''3'', ''4'', ''5''])
      \<noteq> None
   \<and> max_share (map citation_of [''1'', ''1'', ''1'', ''1'', ''1'', ''2'', ''3'', ''4'', ''5''])
      > 0.3
   \<and> detect_concentration (build_graph [] [])
        (map citation_of [''1'', ''2'', ''3'', ''4'', ''5'', ''1'', ''2'', ''3'', ''4'', ''5''])
      = None
   \<and> \<not> max_share (map citation_of
            [''1'', ''2'', ''3'', ''4'', ''5'', ''1'', ''2'', ''3'', ''4'', ''5'']) > 0.3"
proof -
  let ?a = "map citation_of [''1'', ''1'', ''1'', ''1'', ''1'', ''2'', ''3'', ''4'', ''5'']"
  let ?b = "map citation_of
              [''1'', ''2'', ''3'', ''4'', ''5'', ''1'', ''2'', ''3'', ''4'', ''5'']"
  have a: "?a \<noteq> []" and b: "?b \<noteq> []"
    by simp_all
  have da: "detect_concentration (build_graph [] []) ?a \<noteq> None"
    by code_simp
  have db: "detect_concentration (build_graph [] []) ?b = None"
    by code_simp
  show ?thesis
    using C7_concentration_iff_share_exceeds_30_percent [OF a, of "build_graph [] []"]
      C7_concentration_iff_share_exceeds_30_percent [OF b, of "build_graph [] []"]
      a da db
    by blast
qed

section \<open>Properties of the analyzer\<close>

lemma extract_citations_empty_text: "extract_citations [] references = Inr []"
  by code_simp

text \<open>
  C2, at an input where the code raises: an entry of \<open>author_names\<close> that is the empty
  string has no last token, \<^verbatim>\<open>name.lower().split()[-1]\<close> raises IndexError, and
  \<^verbatim>\<open>analyze\<close> returns no result.
\<close>

theorem C2_blank_author_name_raises:
  "analyze e [] [] (Some ['''']) = Inl IndexError"
proof -
  have "edges (build_graph [] []) = []"
    by code_simp
  then have "detect_citation_cartels e (build_graph [] []) = Inr []"
    by (rule detect_citation_cartels_no_edges)
  then obtain ps where "detect_patterns e (build_graph [] []) [] = Inr ps"
    by (simp add: detect_patterns_def)
  then show ?thesis
    by (simp add: analyze_def extract_citations_empty_text count_self_citations_def
        last_name_def split_ws_def lower_def)
qed




lemma analyze_returns:
  assumes "analyze e manuscript_text references author_names = Inr r"
  shows "\<exists>cs ps n. extract_citations manuscript_text references = Inr cs
           \<and> detect_patterns e (build_graph cs references) cs = Inr ps
           \<and> count_self_citations cs references
                (case author_names of None \<Rightarrow> [] | Some names \<Rightarrow> names) = Inr n
           \<and> r = analysis_of e cs references (build_graph cs references) ps n"
  using assms by (auto simp: analyze_def Let_def split: sum.splits)




lemma count_self_no_references: "count_self_citations cs [] names = Inr n \<Longrightarrow> n = 0"
  by (auto simp: count_self_citations_def split: if_splits sum.splits)

text \<open>
  C3, as the code has it: the density, the diversity and the self-citation count are
  computed from the reference list (nodes and coupling edges come from the references,
  and the self-citation count runs over the references), so they take their zero values
  when the \<^emph>\<open>reference list\<close> is empty, whatever the text and the author names are.
  With no citation in the text and a non-empty reference list they need not be zero.
\<close>

theorem C3_zero_metrics_without_references:
  assumes "analyze e manuscript_text [] author_names = Inr r"
  shows "citation_network_density r = 0 \<and> author_citation_diversity r = 0
       \<and> self_citation_rate r = 0"
proof -
  from analyze_returns [OF assms] obtain cs ps n
    where r: "r = analysis_of e cs [] (build_graph cs []) ps n"
      and n: "count_self_citations cs []
                (case author_names of None \<Rightarrow> [] | Some names \<Rightarrow> names) = Inr n"
    by blast
  have n0: "n = 0"
    using n by (rule count_self_no_references)
  have "nodes (build_graph cs []) = {}"
    by (simp add: build_graph_def Let_def)
  then have "calculate_network_density (build_graph cs []) = 0"
    by (simp add: calculate_network_density_def)
  then show ?thesis
    by (simp add: r analysis_of_def Let_def n0 calculate_citation_diversity_def)
qed

theorem C3_no_references_witness:
  "\<exists>r. analyze example_env ''This study [1] builds upon previous work [2,3].'' []
          (Some [''Ada Researcher'']) = Inr r
      \<and> total_citations r = 3
      \<and> citation_network_density r = 0 \<and> author_citation_diversity r = 0
      \<and> self_citation_rate r = 0"
proof -
  let ?a = "analyze example_env ''This study [1] builds upon previous work [2,3].'' []
          (Some [''Ada Researcher''])"
  have t: "map_sum id total_citations ?a = Inr 3"
    by code_simp
  then obtain r where r: "?a = Inr r"
    by (cases ?a) auto
  have "total_citations r = 3"
    using t by (simp add: r)
  then show ?thesis
    using r C3_zero_metrics_without_references [OF r] by (intro exI [of _ r]) simp
qed

theorem C3_no_citations_counterexample:
  "map_sum id
     (\<lambda>r. (total_citations r, citation_network_density r, author_citation_diversity r,
           self_citation_rate r))
     (analyze example_env ''We study citation rings.''
        [\<lparr>authors = [''Jane Smith''], title = None, year = Some 2020, venue = Some ''Nature''\<rparr>,
         \<lparr>authors = [''J. Smith''], title = None, year = Some 2021, venue = Some ''Nature''\<rparr>]
        (Some [''Jane Smith'']))
   = Inr (0, 1 / 2, 1 / 2, 2)"
  by code_simp

lemma results_differ:
  assumes "map_sum id f x = Inr a" and "map_sum id f y = Inr b" and "a \<noteq> b"
    and "\<And>r. f (u r) = f r"
  shows "map_sum id u x \<noteq> map_sum id u y"
proof
  assume eq: "map_sum id u x = map_sum id u y"
  from assms(1) obtain r1 where x: "x = Inr r1" and a: "f r1 = a"
    by (cases x) auto
  from assms(2) obtain r2 where y: "y = Inr r2" and b: "f r2 = b"
    by (cases y) auto
  from eq have "u r1 = u r2"
    by (simp add: x y)
  then have "f (u r1) = f (u r2)"
    by simp
  then show False
    using assms(3,4) a b by simp
qed

text \<open>
  C9, as the code has it: two calls of \<^verbatim>\<open>analyze\<close> on the same text, references and
  author names, in interpreter runs that read the same current year, iterate sets in the
  same order and leave the same room on the stack, return results that are equal once
  the analysis timestamp is set aside, and raise the same exception if they raise. The
  current year alone does not fix the result: the clustering pattern lists
  \<^verbatim>\<open>list(graph.nodes)\<close>, a set of strings, whose order of iteration changes with the
  hash seed of the interpreter run, so two runs that differ in that order only report
  different \<open>affected_references\<close>.
\<close>

theorem C9_two_runs_agree_up_to_timestamp:
  assumes "set_order e1 = set_order e2" and "current_year e1 = current_year e2"
    and "recursion_limit e1 = recursion_limit e2"
  shows "map_sum id (\<lambda>r. r\<lparr>analysis_timestamp := t\<rparr>)
           (analyze e1 manuscript_text references author_names)
       = map_sum id (\<lambda>r. r\<lparr>analysis_timestamp := t\<rparr>)
           (analyze e2 manuscript_text references author_names)"
proof -
  have k: "cartels_of_neighbor e1 = cartels_of_neighbor e2"
    unfolding cartels_of_neighbor_def assms by (rule refl)
  have p: "detect_patterns e1 g cs = detect_patterns e2 g cs" for g cs
    unfolding detect_patterns_def detect_clustering_def detect_citation_cartels_def
      detect_temporal_anomalies_def k assms
    by (rule refl)
  have c: "find_clusters e1 g = find_clusters e2 g" for g
    unfolding find_clusters_def assms by (rule refl)
  have g: "generate_recommendations e1 a b c d = generate_recommendations e2 a b c d"
    for a b c d
    unfolding generate_recommendations_def assms by (rule refl)
  have "(analysis_of e1 cs references gr ps n)\<lparr>analysis_timestamp := t\<rparr>
      = (analysis_of e2 cs references gr ps n)\<lparr>analysis_timestamp := t\<rparr>" for cs gr ps n
    by (simp add: analysis_of_def Let_def c g)
  then show ?thesis
    by (simp add: analyze_def p Let_def split: sum.splits)
qed

theorem C9_later_clock_witness:
  "map_sum id (\<lambda>r. r\<lparr>analysis_timestamp := 0\<rparr>)
     (analyze example_env ''We extend [1].'' three_references (Some [''Researcher'']))
   = map_sum id (\<lambda>r. r\<lparr>analysis_timestamp := 0\<rparr>)
       (analyze (example_env\<lparr>clock := 86400\<rparr>) ''We extend [1].'' three_references
          (Some [''Researcher'']))
   \<and> map_sum id (\<lambda>r. map affected_references (suspicious_patterns r))
       (analyze example_env ''We extend [1].'' three_references (Some [''Researcher'']))
     = Inr [[''1'', ''2'', ''3''], [''1'']]"
proof (rule conjI)
  show "map_sum id (\<lambda>r. r\<lparr>analysis_timestamp := 0\<rparr>)
     (analyze example_env ''We extend [1].'' three_references (Some [''Researcher'']))
   = map_sum id (\<lambda>r. r\<lparr>analysis_timestamp := 0\<rparr>)
       (analyze (example_env\<lparr>clock := 86400\<rparr>) ''We extend [1].'' three_references
          (Some [''Researcher'']))"
    by (rule C9_two_runs_agree_up_to_timestamp) simp_all
  show "map_sum id (\<lambda>r. map affected_references (suspicious_patterns r))
       (analyze example_env ''We extend [1].'' three_references (Some [''Researcher'']))
     = Inr [[''1'', ''2'', ''3''], [''1'']]"
    by code_simp
qed

theorem C9_set_order_counterexample:
  "current_year reversed_env = current_year example_env
   \<and> recursion_limit reversed_env = recursion_limit example_env
   \<and> map_sum id (\<lambda>r. map affected_references (suspicious_patterns r))
        (analyze example_env ''We extend [1].'' three_references None)
      = Inr [[''1'', ''2'', ''3''], [''1'']]
   \<and> map_sum id (\<lambda>r. map affected_references (suspicious_patterns r))
        (analyze reversed_env ''We extend [1].'' three_references None)
      = Inr [[''3'', ''2'', ''1''], [''1'']]
   \<and> map_sum id (\<lambda>r. r\<lparr>analysis_timestamp := 0\<rparr>)
        (analyze example_env ''We extend [1].'' three_references None)
      \<noteq> map_sum id (\<lambda>r. r\<lparr>analysis_timestamp := 0\<rparr>)
          (analyze reversed_env ''We extend [1].'' three_references None)"
proof -
  have y: "current_year reversed_env = current_year example_env"
    by (simp add: reversed_env_def)
  have l: "recursion_limit reversed_env = recursion_limit example_env"
    by (simp add: reversed_env_def)
  have a: "map_sum id (\<lambda>r. map affected_references (suspicious_patterns r))
        (analyze example_env ''We extend [1].'' three_references None)
      = Inr [[''1'', ''2'', ''3''], [''1'']]"
    by code_simp
  have b: "map_sum id (\<lambda>r. map affected_references (suspicious_patterns r))
        (analyze reversed_env ''We extend [1].'' three_references None)
      = Inr [[''3'', ''2'', ''1''], [''1'']]"
    by code_simp
  have ne: "[[''1'', ''2'', ''3''], [''1'']] \<noteq> [[''3'', ''2'', ''1''], [''1'']]"
    by simp
  have d: "map_sum id (\<lambda>r. r\<lparr>analysis_timestamp := 0\<rparr>)
        (analyze example_env ''We extend [1].'' three_references None)
      \<noteq> map_sum id (\<lambda>r. r\<lparr>analysis_timestamp := 0\<rparr>)
          (analyze reversed_env ''We extend [1].'' three_references None)"
    by (rule results_differ [OF a b ne]) simp
  show ?thesis
    by (intro conjI y l a b d)
qed

end
